theory Spec2Isabelle
  imports Complex_Main "HOL-Library.Word"
begin

section \<open>The audio pipeline of \<open>AppAudio\<close>\<close>

text \<open>
  The development embeds the three data-carrying parts of class \<open>AppAudio\<close>:
  the circular sample buffer with its linearised copy (\<open>detectTask\<close>), the
  data-access callback handed to the classifier (\<open>get_data_fn\<close>), and the label
  reduction with the latched crying state (\<open>actionTask\<close>).

  Samples are C++ \<open>float\<close>s that are only ever copied, so their type is a type
  variable. Scores are \<open>float\<close>s that are only ever compared with \<open>>\<close>; they are taken
  from a type of class \<open>order\<close>, whose \<open><\<close> is a strict partial order as the
  comparison of floats is (a NaN is comparable with nothing).
\<close>

subsection \<open>Constants and object state\<close>

definition CRYING_IDX :: nat where
  "CRYING_IDX = 0"

definition NOISE_IDX :: nat where
  "NOISE_IDX = 1"

definition AUDIO_BUFFER_SIZE :: nat where
  "AUDIO_BUFFER_SIZE = 16000"

text \<open>
  The data members of the class that the tasks read and write. The cursor
  \<open>m_audio_buffer_ptr\<close> is an \<open>int\<close> in the source; it starts at 0 and is only
  ever assigned by \<open>%= AUDIO_BUFFER_SIZE\<close> and \<open>++\<close>, so it is a natural number here.
  The callback \<open>m_crying_fn\<close> is represented by the arguments it has been called
  with so far, oldest first.
\<close>

record 'a AppAudio =
  m_audio_buffer :: "'a list"
  m_features :: "'a list"
  m_audio_buffer_ptr :: nat
  m_crying :: bool
  m_crying_fn_calls :: "bool list"

text \<open>
  \<open>init\<close>: \<open>new float[AUDIO_BUFFER_SIZE]\<close> leaves the two arrays with
  indeterminate contents; the functions \<open>buf0\<close> and \<open>feat0\<close> give the value found in
  each cell. The cursor keeps its default member initialiser 0.
\<close>

definition init :: "(nat \<Rightarrow> 'a) \<Rightarrow> (nat \<Rightarrow> 'a) \<Rightarrow> 'a AppAudio" where
  "init buf0 feat0 =
     \<lparr> m_audio_buffer = map buf0 [0..<AUDIO_BUFFER_SIZE],
       m_features = map feat0 [0..<AUDIO_BUFFER_SIZE],
       m_audio_buffer_ptr = 0,
       m_crying = False,
       m_crying_fn_calls = [] \<rparr>"

text \<open>Both arrays keep the size they were allocated with.\<close>

definition allocated :: "'a AppAudio \<Rightarrow> bool" where
  "allocated s \<longleftrightarrow>
     length (m_audio_buffer s) = AUDIO_BUFFER_SIZE \<and>
     length (m_features s) = AUDIO_BUFFER_SIZE"

subsection \<open>\<open>detectTask\<close>: the circular buffer and its linearised copy\<close>

text \<open>
  The front end is external. A fetch yields a null pointer (\<open>None\<close>) or a result
  whose \<open>ret_value\<close> the task only compares with \<open>ESP_FAIL\<close> and whose \<open>data\<close> holds
  the samples of the frame.
\<close>

datatype esp_err_t = ESP_OK | ESP_FAIL | ESP_ERR int

record 'a afe_fetch_result_t =
  data :: "'a list"
  ret_value :: esp_err_t

datatype fault = OutOfRange

text \<open>
  The body of the first loop: \<open>m_audio_buffer_ptr %= AUDIO_BUFFER_SIZE\<close>, then the
  store through the cursor with post-increment.
\<close>

definition append_sample :: "'a \<Rightarrow> 'a AppAudio \<Rightarrow> 'a AppAudio" where
  "append_sample x s =
     (let p = m_audio_buffer_ptr s mod AUDIO_BUFFER_SIZE
      in s\<lparr> m_audio_buffer := (m_audio_buffer s)[p := x],
            m_audio_buffer_ptr := p + 1 \<rparr>)"

text \<open>
  The first loop, from counter \<open>i\<close> on. \<open>afe_chunksize\<close> is a signed \<open>int\<close>
  obtained from the front end; a frame with fewer samples than that is read
  outside its storage.
\<close>

function populate :: "nat \<Rightarrow> int \<Rightarrow> 'a list \<Rightarrow> 'a AppAudio \<Rightarrow> fault + 'a AppAudio" where
  "populate i afe_chunksize dat s =
     (if int i < afe_chunksize then
        (if i < length dat
         then populate (Suc i) afe_chunksize dat (append_sample (dat ! i) s)
         else Inl OutOfRange)
      else Inr s)"
  by pat_completeness auto
termination
  by (relation "measure (\<lambda>(i, afe_chunksize, dat, s). nat (afe_chunksize - int i))") auto

declare populate.simps [simp del]

text \<open>The second loop, run under the lock, from counter \<open>i\<close> on.\<close>

function update_features :: "nat \<Rightarrow> 'a AppAudio \<Rightarrow> 'a AppAudio" where
  "update_features i s =
     (if i < AUDIO_BUFFER_SIZE then
        update_features (Suc i)
          (s\<lparr> m_features := (m_features s)
                 [i := m_audio_buffer s ! ((m_audio_buffer_ptr s + i) mod AUDIO_BUFFER_SIZE)] \<rparr>)
      else s)"
  by pat_completeness auto
termination
  by (relation "measure (\<lambda>(i, s). AUDIO_BUFFER_SIZE - i)") auto

declare update_features.simps [simp del]

text \<open>One pass through the body of \<open>while (true)\<close>, given what the fetch returned.\<close>

definition detect_iteration ::
  "int \<Rightarrow> 'a afe_fetch_result_t option \<Rightarrow> 'a AppAudio \<Rightarrow> fault + 'a AppAudio" where
  "detect_iteration afe_chunksize res s =
     (case res of
        None \<Rightarrow> Inr s
      | Some r \<Rightarrow>
          if ret_value r = ESP_FAIL then Inr s
          else (case populate 0 afe_chunksize (data r) s of
                  Inl e \<Rightarrow> Inl e
                | Inr s' \<Rightarrow> Inr (update_features 0 s')))"

text \<open>The task on a finite run of fetches; the loop itself never ends.\<close>

fun detectTask ::
  "int \<Rightarrow> 'a afe_fetch_result_t option list \<Rightarrow> 'a AppAudio \<Rightarrow> fault + 'a AppAudio" where
  "detectTask afe_chunksize [] s = Inr s"
| "detectTask afe_chunksize (res # fetches) s =
     (case detect_iteration afe_chunksize res s of
        Inl e \<Rightarrow> Inl e
      | Inr s' \<Rightarrow> detectTask afe_chunksize fetches s')"

subsection \<open>\<open>actionTask\<close>: the data-access callback\<close>

text \<open>
  \<open>get_data_fn\<close> is a \<open>memcpy\<close> of \<open>length * sizeof(float)\<close> bytes from
  \<open>m_features + offset\<close>, followed by \<open>return 0\<close>. Offset and length are \<open>size_t\<close>,
  an unsigned type whose width \<open>'w\<close> the platform fixes (32 bits on the ESP32);
  the byte count is formed in that type and wraps, and \<open>sizeof(float)\<close> is 4, so
  \<open>n\<close> is the number of floats that are copied. The first component is what
  \<open>memcpy\<close> delivered, or the fault when it read a cell past the array; a byte
  count of zero reads nothing. The second component is the returned \<open>int\<close>.
\<close>

definition get_data_fn ::
  "'a AppAudio \<Rightarrow> 'w::len word \<Rightarrow> 'w word \<Rightarrow> (fault + 'a list) \<times> int" where
  "get_data_fn obj offset len =
     (let n = unat (len * 4) div 4 in
      (if n = 0 then Inr []
       else if unat offset + n \<le> length (m_features obj)
       then Inr (take n (drop (unat offset) (m_features obj)))
       else Inl OutOfRange,
       0))"

subsection \<open>\<open>actionTask\<close>: label reduction\<close>

text \<open>
  \<open>run_classifier\<close> is external. One call yields a status, which the task only
  compares with \<open>EI_IMPULSE_OK\<close>, and the array \<open>result.classification\<close> with one
  score per label, so that \<open>EI_CLASSIFIER_LABEL_COUNT\<close> is the length of that list.
\<close>

datatype EI_IMPULSE_ERROR = EI_IMPULSE_OK | EI_IMPULSE_ERR int

text \<open>
  The scan \<open>for (uint16_t i = 0; i < EI_CLASSIFIER_LABEL_COUNT; ++i)\<close> started at
  counter \<open>i\<close> with running best \<open>result_idx\<close>. The counter is a 16-bit word and
  wraps; the result is \<open>None\<close> when the loop never exits. Reading
  \<open>classification[result_idx]\<close> outside the array is the fault \<open>OutOfRange\<close>.
\<close>

partial_function (option) label_scan ::
  "('b::order) list \<Rightarrow> 16 word \<Rightarrow> nat \<Rightarrow> (fault + nat) option" where
  "label_scan classification i result_idx =
     (if unat i < length classification then
        (if result_idx < length classification then
           label_scan classification (i + 1)
             (if classification ! unat i > classification ! result_idx
              then unat i else result_idx)
         else Some (Inl OutOfRange))
      else Some (Inr result_idx))"

definition reduce_label :: "EI_IMPULSE_ERROR \<Rightarrow> ('b::order) list \<Rightarrow> (fault + nat) option" where
  "reduce_label status classification =
     (if status = EI_IMPULSE_OK then label_scan classification 0 NOISE_IDX
      else Some (Inr NOISE_IDX))"

subsection \<open>\<open>actionTask\<close>: the switch on the reduced label\<close>

definition action_switch :: "nat \<Rightarrow> 'a AppAudio \<Rightarrow> 'a AppAudio" where
  "action_switch result_idx s =
     (if result_idx = CRYING_IDX then
        (if \<not> m_crying s
         then s\<lparr> m_crying_fn_calls := m_crying_fn_calls s @ [True], m_crying := True \<rparr>
         else s)
      else if result_idx = NOISE_IDX then
        (if m_crying s
         then s\<lparr> m_crying_fn_calls := m_crying_fn_calls s @ [False], m_crying := False \<rparr>
         else s)
      else s)"

text \<open>
  One pass through the body of \<open>while (true)\<close>, given the status and the scores
  that \<open>run_classifier\<close> delivered. The scores left in \<open>result\<close> by a failed call are
  whatever they are: they are an argument like any other.
\<close>

definition action_iteration ::
  "EI_IMPULSE_ERROR \<times> ('b::order) list \<Rightarrow> 'a AppAudio \<Rightarrow> (fault + 'a AppAudio) option" where
  "action_iteration r s =
     (case reduce_label (fst r) (snd r) of
        None \<Rightarrow> None
      | Some (Inl e) \<Rightarrow> Some (Inl e)
      | Some (Inr result_idx) \<Rightarrow> Some (Inr (action_switch result_idx s)))"

text \<open>The task on a finite run of classifier results.\<close>

fun actionTask ::
  "(EI_IMPULSE_ERROR \<times> ('b::order) list) list \<Rightarrow> 'a AppAudio \<Rightarrow> (fault + 'a AppAudio) option" where
  "actionTask [] s = Some (Inr s)"
| "actionTask (r # rs) s =
     (case action_iteration r s of
        None \<Rightarrow> None
      | Some (Inl e) \<Rightarrow> Some (Inl e)
      | Some (Inr s') \<Rightarrow> actionTask rs s')"

subsection \<open>Notions of the specification\<close>

text \<open>
  The temporal linearisation of the buffer: its cells read once around, starting
  at the cursor.
\<close>

definition linearized :: "'a AppAudio \<Rightarrow> 'a list" where
  "linearized s =
     map (\<lambda>i. m_audio_buffer s ! ((m_audio_buffer_ptr s + i) mod AUDIO_BUFFER_SIZE))
       [0..<AUDIO_BUFFER_SIZE]"

text \<open>
  The reduction in the specification's words: start at the background label, go
  through all labels, and replace the running best whenever a score is strictly
  greater than the score of the running best.
\<close>

definition scan_step :: "('b::order) list \<Rightarrow> nat \<Rightarrow> nat \<Rightarrow> nat" where
  "scan_step scores i best = (if scores ! i > scores ! best then i else best)"

definition spec_reduction :: "('b::order) list \<Rightarrow> nat" where
  "spec_reduction scores = fold (scan_step scores) [0..<length scores] NOISE_IDX"

text \<open>
  The latched state before each label of a run and after the last one, and the
  number of places where two neighbours of such a sequence differ.
\<close>

fun state_sequence :: "nat list \<Rightarrow> 'a AppAudio \<Rightarrow> bool list" where
  "state_sequence [] s = [m_crying s]"
| "state_sequence (l # ls) s = m_crying s # state_sequence ls (action_switch l s)"

fun state_changes :: "bool list \<Rightarrow> nat" where
  "state_changes (a # b # bs) = (if a \<noteq> b then 1 else 0) + state_changes (b # bs)"
| "state_changes bs = 0"

text \<open>A cell content and a score vector for concrete runs.\<close>

definition silence :: "nat \<Rightarrow> real" where
  "silence i = 0"

definition tied_scores :: "real list" where
  "tied_scores = [1 / 2, 1 / 2]"

section \<open>The circular buffer\<close>

lemma buffer_size_pos: "0 < AUDIO_BUFFER_SIZE"
  by (simp add: AUDIO_BUFFER_SIZE_def)

lemma allocated_init: "allocated (init buf0 feat0)"
  by (simp add: allocated_def init_def)

lemma allocated_append_sample: "allocated s \<Longrightarrow> allocated (append_sample x s)"
  by (simp add: allocated_def append_sample_def Let_def)

lemma allocated_appends: "allocated s \<Longrightarrow> allocated (fold append_sample xs s)"
  by (induction xs arbitrary: s) (simp_all add: allocated_append_sample)

lemma length_linearized: "length (linearized s) = AUDIO_BUFFER_SIZE"
  by (simp add: linearized_def)

lemma mod_succ_shift:
  fixes q i C :: nat
  assumes "Suc i < C" "q < C"
  shows "(q + 1 + i) mod C \<noteq> q"
proof (cases "q + Suc i < C")
  case True
  then show ?thesis by simp
next
  case False
  then have "(q + Suc i) mod C = (q + Suc i - C) mod C"
    by (simp add: le_mod_geq)
  also have "\<dots> = q + Suc i - C"
    using assms by simp
  finally show ?thesis using assms False by simp
qed

lemma mod_wrap_last:
  fixes q C :: nat
  assumes "0 < C" "q < C"
  shows "(q + 1 + (C - 1)) mod C = q"
  using assms by simp

lemma linearized_append_sample:
  assumes "allocated s"
  shows "linearized (append_sample x s) = tl (linearized s) @ [x]"
proof (rule nth_equalityI)
  show "length (linearized (append_sample x s)) = length (tl (linearized s) @ [x])"
    using buffer_size_pos by (simp add: length_linearized)
next
  fix i
  assume "i < length (linearized (append_sample x s))"
  then have i: "i < AUDIO_BUFFER_SIZE" by (simp add: length_linearized)
  define q where "q = m_audio_buffer_ptr s mod AUDIO_BUFFER_SIZE"
  have q: "q < AUDIO_BUFFER_SIZE" using buffer_size_pos by (simp add: q_def)
  have len: "length (m_audio_buffer s) = AUDIO_BUFFER_SIZE"
    using assms by (simp add: allocated_def)
  have lhs: "linearized (append_sample x s) ! i
      = (m_audio_buffer s)[q := x] ! ((q + 1 + i) mod AUDIO_BUFFER_SIZE)"
    using i by (simp add: linearized_def append_sample_def Let_def q_def)
  show "linearized (append_sample x s) ! i = (tl (linearized s) @ [x]) ! i"
  proof (cases "Suc i < AUDIO_BUFFER_SIZE")
    case True
    then have ne: "(q + 1 + i) mod AUDIO_BUFFER_SIZE \<noteq> q"
      using q by (rule mod_succ_shift)
    have "(q + Suc i) mod AUDIO_BUFFER_SIZE
        = (m_audio_buffer_ptr s + Suc i) mod AUDIO_BUFFER_SIZE"
      unfolding q_def by (rule mod_add_left_eq)
    then have "(q + 1 + i) mod AUDIO_BUFFER_SIZE
        = (m_audio_buffer_ptr s + Suc i) mod AUDIO_BUFFER_SIZE"
      by simp
    then have "linearized (append_sample x s) ! i = linearized s ! Suc i"
      using lhs ne True by (simp add: linearized_def)
    also have "\<dots> = (tl (linearized s) @ [x]) ! i"
    proof -
      have "i < length (tl (linearized s))"
        using True by (simp add: length_linearized)
      then show ?thesis by (simp add: nth_append nth_tl)
    qed
    finally show ?thesis .
  next
    case False
    with i have last: "i = AUDIO_BUFFER_SIZE - 1" by simp
    have "(q + 1 + i) mod AUDIO_BUFFER_SIZE = q"
      unfolding last using buffer_size_pos q by (rule mod_wrap_last)
    then have "linearized (append_sample x s) ! i = x"
      using lhs q len by simp
    also have "\<dots> = (tl (linearized s) @ [x]) ! i"
      using last by (simp add: nth_append length_linearized)
    finally show ?thesis .
  qed
qed

lemma linearized_appends:
  assumes "allocated s"
  shows "linearized (fold append_sample xs s) = drop (length xs) (linearized s @ xs)"
  using assms
proof (induction xs arbitrary: s)
  case Nil
  then show ?case by simp
next
  case (Cons x xs)
  have ne: "linearized s \<noteq> []"
    using buffer_size_pos length_linearized [of s] by auto
  have "linearized (fold append_sample (x # xs) s)
      = drop (length xs) (linearized (append_sample x s) @ xs)"
    using Cons.IH [of "append_sample x s"] Cons.prems
    by (simp add: allocated_append_sample)
  also have "\<dots> = drop (length xs) (tl (linearized s) @ x # xs)"
    using Cons.prems by (simp add: linearized_append_sample)
  also have "\<dots> = drop (length (x # xs)) (linearized s @ x # xs)"
    using ne by (cases "linearized s") simp_all
  finally show ?case .
qed

lemma linearized_last_samples:
  assumes "allocated s" "AUDIO_BUFFER_SIZE \<le> length xs"
  shows "linearized (fold append_sample xs s) = drop (length xs - AUDIO_BUFFER_SIZE) xs"
  using assms by (simp add: linearized_appends length_linearized)

lemma update_features_from:
  assumes "i \<le> AUDIO_BUFFER_SIZE" "length (m_features s) = AUDIO_BUFFER_SIZE"
  shows "update_features i s
    = s\<lparr> m_features := take i (m_features s) @ drop i (linearized s) \<rparr>"
  using assms
proof (induction i s rule: update_features.induct)
  case (1 i s)
  show ?case
  proof (cases "i < AUDIO_BUFFER_SIZE")
    case False
    with "1.prems" show ?thesis
      by (subst update_features.simps) (simp add: length_linearized)
  next
    case True
    let ?v = "m_audio_buffer s ! ((m_audio_buffer_ptr s + i) mod AUDIO_BUFFER_SIZE)"
    let ?s = "s\<lparr> m_features := (m_features s)[i := ?v] \<rparr>"
    have lin: "linearized ?s = linearized s" by (simp add: linearized_def)
    have a: "update_features i s = update_features (Suc i) ?s"
      using True by (subst update_features.simps) simp
    have b: "update_features (Suc i) ?s
        = ?s\<lparr> m_features := take (Suc i) (m_features ?s) @ drop (Suc i) (linearized ?s) \<rparr>"
      using "1.IH" [OF True] True "1.prems" by simp
    have c: "take (Suc i) (m_features ?s) = take i (m_features s) @ [?v]"
      using True "1.prems" by (simp add: take_Suc_conv_app_nth)
    have "linearized s ! i = ?v"
      using True by (simp add: linearized_def)
    then have d: "drop i (linearized s) = ?v # drop (Suc i) (linearized s)"
      using True Cons_nth_drop_Suc [of i "linearized s"] by (simp add: length_linearized)
    show ?thesis
      unfolding a b c d lin by simp
  qed
qed

lemma update_features_linearized:
  assumes "allocated s"
  shows "update_features 0 s = s\<lparr> m_features := linearized s \<rparr>"
  using assms update_features_from [of 0 s] by (simp add: allocated_def)

lemma ptr_after_appends:
  "xs \<noteq> [] \<Longrightarrow> m_audio_buffer_ptr (fold append_sample xs s)
     = (m_audio_buffer_ptr s + length xs - 1) mod AUDIO_BUFFER_SIZE + 1"
proof (induction xs rule: rev_induct)
  case Nil
  then show ?case by simp
next
  case (snoc x xs)
  show ?case
  proof (cases "xs = []")
    case True
    then show ?thesis by (simp add: append_sample_def Let_def)
  next
    case False
    then have "0 < length xs" by simp
    then have "Suc (m_audio_buffer_ptr s + length xs - 1) = m_audio_buffer_ptr s + length xs"
      by simp
    then have "Suc ((m_audio_buffer_ptr s + length xs - 1) mod AUDIO_BUFFER_SIZE) mod AUDIO_BUFFER_SIZE
        = (m_audio_buffer_ptr s + length xs) mod AUDIO_BUFFER_SIZE"
      by (simp add: mod_Suc_eq)
    then show ?thesis
      using snoc.IH [OF False] by (simp add: append_sample_def Let_def)
  qed
qed

lemma ptr_bound_appends:
  "m_audio_buffer_ptr s \<le> AUDIO_BUFFER_SIZE
     \<Longrightarrow> m_audio_buffer_ptr (fold append_sample xs s) \<le> AUDIO_BUFFER_SIZE"
proof (cases "xs = []")
  case True
  assume "m_audio_buffer_ptr s \<le> AUDIO_BUFFER_SIZE"
  with True show ?thesis by simp
next
  case False
  have "(m_audio_buffer_ptr s + length xs - 1) mod AUDIO_BUFFER_SIZE < AUDIO_BUFFER_SIZE"
    using buffer_size_pos by simp
  then show ?thesis
    by (simp add: ptr_after_appends [OF False])
qed

lemma oldest_at_cursor:
  assumes "allocated s" "AUDIO_BUFFER_SIZE \<le> length ys"
  shows "m_audio_buffer (fold append_sample ys s)
           ! (m_audio_buffer_ptr (fold append_sample ys s) mod AUDIO_BUFFER_SIZE)
         = ys ! (length ys - AUDIO_BUFFER_SIZE)"
proof -
  let ?t = "fold append_sample ys s"
  have "linearized ?t ! 0 = m_audio_buffer ?t ! (m_audio_buffer_ptr ?t mod AUDIO_BUFFER_SIZE)"
    using buffer_size_pos by (simp add: linearized_def)
  moreover have "linearized ?t ! 0 = ys ! (length ys - AUDIO_BUFFER_SIZE)"
    using assms buffer_size_pos by (simp add: linearized_last_samples)
  ultimately show ?thesis by simp
qed

lemma populate_appends:
  assumes "nat afe_chunksize \<le> length dat" "i \<le> nat afe_chunksize"
  shows "populate i afe_chunksize dat s
     = Inr (fold append_sample (drop i (take (nat afe_chunksize) dat)) s)"
  using assms
proof (induction i afe_chunksize dat s rule: populate.induct)
  case (1 i afe_chunksize dat s)
  show ?case
  proof (cases "int i < afe_chunksize")
    case False
    with "1.prems" show ?thesis
      by (subst populate.simps) simp
  next
    case True
    then have lt: "i < nat afe_chunksize" by simp
    with "1.prems" have inside: "i < length dat" by simp
    have "drop i (take (nat afe_chunksize) dat)
        = dat ! i # drop (Suc i) (take (nat afe_chunksize) dat)"
      using lt inside Cons_nth_drop_Suc [of i "take (nat afe_chunksize) dat"] by simp
    moreover have "populate (Suc i) afe_chunksize dat (append_sample (dat ! i) s)
        = Inr (fold append_sample (drop (Suc i) (take (nat afe_chunksize) dat))
                (append_sample (dat ! i) s))"
      using "1.IH" [OF True inside] "1.prems" lt by simp
    ultimately show ?thesis
      using True inside by (subst populate.simps) simp
  qed
qed

lemma detect_iteration_frame:
  assumes "ret_value r \<noteq> ESP_FAIL" and "nat afe_chunksize \<le> length (data r)"
  shows "detect_iteration afe_chunksize (Some r) s
     = Inr (update_features 0 (fold append_sample (take (nat afe_chunksize) (data r)) s))"
  using assms populate_appends [of afe_chunksize "data r" 0 s]
  by (simp add: detect_iteration_def)

section \<open>The label scan\<close>

text \<open>
  With at most 65535 labels the 16-bit counter reaches the label count, the loop
  exits, and as long as the running best is inside the array the scan is the fold
  of the specification over the remaining indices.
\<close>

lemma scan_step_bound: "i < n \<Longrightarrow> best < n \<Longrightarrow> scan_step cls i best < n"
  by (simp add: scan_step_def)

lemma label_scan_fold:
  assumes "length cls \<le> 65535" "unat i \<le> length cls" "best < length cls"
  shows "label_scan cls i best = Some (Inr (fold (scan_step cls) [unat i..<length cls] best))"
  using assms
proof (induction "length cls - unat i" arbitrary: i best)
  case 0
  then have "unat i = length cls" by simp
  then show ?case by (subst label_scan.simps) simp
next
  case (Suc d)
  then have lt: "unat i < length cls" by simp
  with Suc.prems have "unat i < 65535" by simp
  then have nx: "unat (i + 1) = Suc (unat i)"
    by (simp add: unat_word_ariths)
  have "d = length cls - unat (i + 1)" using Suc.hyps(2) nx by simp
  moreover have "unat (i + 1) \<le> length cls" using lt nx by simp
  moreover have "scan_step cls (unat i) best < length cls"
    using lt Suc.prems(3) by (rule scan_step_bound)
  ultimately have "label_scan cls (i + 1) (scan_step cls (unat i) best)
      = Some (Inr (fold (scan_step cls) [unat (i + 1)..<length cls] (scan_step cls (unat i) best)))"
    using Suc.hyps(1) Suc.prems(1) by blast
  then show ?case
    using lt Suc.prems(3) nx
    by (subst label_scan.simps) (simp add: upt_conv_Cons scan_step_def)
qed

text \<open>A vector with a single label makes the scan read \<open>classification[1]\<close>.\<close>

lemma label_scan_single_label: "label_scan [x] 0 NOISE_IDX = Some (Inl OutOfRange)"
  by (subst label_scan.simps) (simp add: NOISE_IDX_def)

text \<open>
  What the fold keeps after \<open>k\<close> labels: the running best is the background label
  or a label already seen; no label seen has a greater score; and a running best
  other than the background label beats the background label and every label before it.
\<close>

lemma scan_invariant:
  fixes cls :: "('b::order) list"
  defines "b \<equiv> \<lambda>k. fold (scan_step cls) [0..<k] NOISE_IDX"
  shows "(b k = NOISE_IDX \<or> b k < k)
       \<and> (\<forall>i<k. \<not> cls ! b k < cls ! i)
       \<and> (b k \<noteq> NOISE_IDX \<longrightarrow> cls ! NOISE_IDX < cls ! b k \<and> (\<forall>j < b k. \<not> cls ! b k \<le> cls ! j))"
proof (induction k)
  case 0
  show ?case by (simp add: b_def)
next
  case (Suc k)
  have step: "b (Suc k) = scan_step cls k (b k)"
    by (simp add: b_def)
  show ?case
  proof (cases "cls ! b k < cls ! k")
    case True
    then have new: "b (Suc k) = k" by (simp add: step scan_step_def)
    have above: "cls ! NOISE_IDX < cls ! k"
      using Suc True by (cases "b k = NOISE_IDX") (auto intro: less_trans)
    have "\<not> cls ! k < cls ! i" if "i < Suc k" for i
    proof (cases "i = k")
      case True then show ?thesis by simp
    next
      case False
      with that have "i < k" by simp
      with Suc have "\<not> cls ! b k < cls ! i" by blast
      with True show ?thesis by (auto dest: less_trans)
    qed
    moreover have "\<not> cls ! k \<le> cls ! j" if "j < k" for j
    proof -
      from Suc that have "\<not> cls ! b k < cls ! j" by blast
      with True show ?thesis by (auto dest: less_le_trans)
    qed
    ultimately show ?thesis
      using above by (simp add: new)
  next
    case False
    then have same: "b (Suc k) = b k" by (simp add: step scan_step_def)
    have "\<not> cls ! b k < cls ! i" if "i < Suc k" for i
      using that Suc False by (cases "i = k") auto
    then show ?thesis
      using Suc by (auto simp: same)
  qed
qed

lemma spec_reduction_props:
  fixes cls :: "('b::order) list"
  shows "(spec_reduction cls = NOISE_IDX \<or> spec_reduction cls < length cls)"
   and "i < length cls \<Longrightarrow> \<not> cls ! spec_reduction cls < cls ! i"
   and "spec_reduction cls \<noteq> NOISE_IDX \<Longrightarrow> cls ! NOISE_IDX < cls ! spec_reduction cls"
   and "spec_reduction cls \<noteq> NOISE_IDX \<Longrightarrow> j < spec_reduction cls
          \<Longrightarrow> \<not> cls ! spec_reduction cls \<le> cls ! j"
  using scan_invariant [of cls "length cls"] by (auto simp: spec_reduction_def)

lemma reduce_label_ok:
  assumes "2 \<le> length cls" "length cls \<le> 65535"
  shows "reduce_label EI_IMPULSE_OK cls = Some (Inr (spec_reduction cls))"
  using assms label_scan_fold [of cls 0 NOISE_IDX]
  by (simp add: reduce_label_def spec_reduction_def NOISE_IDX_def)

lemma reduce_label_tied: "reduce_label EI_IMPULSE_OK tied_scores = Some (Inr NOISE_IDX)"
  by (simp add: reduce_label_ok tied_scores_def spec_reduction_def scan_step_def NOISE_IDX_def upt_rec)

section \<open>Runs of the action task\<close>

lemma failing_run_quiet:
  assumes "\<not> m_crying s" "\<forall>r \<in> set rs. fst r \<noteq> EI_IMPULSE_OK"
  shows "actionTask rs s = Some (Inr s)"
  using assms
  by (induction rs)
     (simp_all add: action_iteration_def reduce_label_def action_switch_def
        NOISE_IDX_def CRYING_IDX_def)

lemma state_sequence_head: "\<exists>bs. state_sequence ls s = m_crying s # bs"
  by (cases ls) simp_all

lemma calls_count:
  "length (m_crying_fn_calls (fold action_switch ls s))
     = length (m_crying_fn_calls s) + state_changes (state_sequence ls s)"
proof (induction ls arbitrary: s)
  case Nil
  show ?case by simp
next
  case (Cons l ls)
  obtain bs where bs: "state_sequence ls (action_switch l s) = m_crying (action_switch l s) # bs"
    using state_sequence_head by blast
  have "length (m_crying_fn_calls (action_switch l s))
      = length (m_crying_fn_calls s) + (if m_crying s \<noteq> m_crying (action_switch l s) then 1 else 0)"
    by (simp add: action_switch_def)
  then show ?case
    using Cons.IH [of "action_switch l s"] by (simp add: bs)
qed

section \<open>The data-access callback\<close>

text \<open>
  A request of at least one float whose byte count fits \<open>size_t\<close> copies as many
  floats as it asks for.
\<close>

lemma copied_floats:
  fixes len :: "'w::len word"
  assumes "0 < unat len" and "4 * unat len < 2 ^ LENGTH('w)"
  shows "unat (len * 4) div 4 = unat len"
proof -
  have "(4::nat) < 2 ^ LENGTH('w)" using assms by simp
  then have four: "unat (4 :: 'w word) = 4"
    by (simp add: take_bit_nat_eq_self)
  have "unat len * unat (4 :: 'w word) < 2 ^ LENGTH('w)"
    unfolding four using assms(2) by (simp add: mult.commute)
  then have "unat (len * 4) = unat len * unat (4 :: 'w word)"
    by (rule unat_mult_lem [THEN iffD1])
  then show ?thesis
    unfolding four by simp
qed

section \<open>Properties of the pipeline\<close>

text \<open>
  C1. The switch is the debounce table: from quiet, label \<open>CRYING_IDX\<close> moves to
  active and calls the sink once with \<open>True\<close>; from active, label \<open>NOISE_IDX\<close> moves to
  quiet and calls the sink once with \<open>False\<close>; every other label, and a label seen
  again in the state it produced, changes nothing and calls nothing; the object
  starts quiet with no call made.
\<close>

theorem debounce_table:
  "(\<not> m_crying s \<longrightarrow>
      action_switch CRYING_IDX s
        = s\<lparr> m_crying_fn_calls := m_crying_fn_calls s @ [True], m_crying := True \<rparr>)
   \<and> (m_crying s \<longrightarrow>
      action_switch NOISE_IDX s
        = s\<lparr> m_crying_fn_calls := m_crying_fn_calls s @ [False], m_crying := False \<rparr>)
   \<and> (l \<noteq> CRYING_IDX \<and> l \<noteq> NOISE_IDX \<longrightarrow> action_switch l s = s)
   \<and> (m_crying s \<longrightarrow> action_switch CRYING_IDX s = s)
   \<and> (\<not> m_crying s \<longrightarrow> action_switch NOISE_IDX s = s)
   \<and> m_crying (init buf feat) = False
   \<and> m_crying_fn_calls (init buf feat) = []"
  by (simp add: action_switch_def CRYING_IDX_def NOISE_IDX_def init_def)

theorem debounce_table_witness:
  "action_switch CRYING_IDX (init silence silence)
     = (init silence silence)\<lparr> m_crying_fn_calls := [True], m_crying := True \<rparr>
   \<and> action_switch NOISE_IDX ((init silence silence)\<lparr> m_crying := True \<rparr>)
     = (init silence silence)\<lparr> m_crying_fn_calls := [False], m_crying := False \<rparr>
   \<and> action_switch 2 (init silence silence) = init silence silence
   \<and> action_switch CRYING_IDX ((init silence silence)\<lparr> m_crying := True \<rparr>)
     = (init silence silence)\<lparr> m_crying := True \<rparr>
   \<and> action_switch NOISE_IDX (init silence silence) = init silence silence"
  using debounce_table [where s = "init silence silence" and l = 2]
    debounce_table [where s = "(init silence silence)\<lparr> m_crying := True \<rparr>" and l = 2]
  by (simp add: init_def CRYING_IDX_def NOISE_IDX_def)

text \<open>
  C2. After at least \<open>AUDIO_BUFFER_SIZE\<close> single-sample appends and the rebuild,
  \<open>m_features\<close> has \<open>AUDIO_BUFFER_SIZE\<close> cells and holds exactly the last
  \<open>AUDIO_BUFFER_SIZE\<close> appended samples, oldest first; cell \<open>i\<close> is the buffer cell
  \<open>(m_audio_buffer_ptr + i) mod AUDIO_BUFFER_SIZE\<close>.
\<close>

theorem window_holds_last_samples:
  assumes "allocated s" and "AUDIO_BUFFER_SIZE \<le> length xs"
  shows "(let s' = update_features 0 (fold append_sample xs s) in
            length (m_features s') = AUDIO_BUFFER_SIZE
          \<and> m_features s' = drop (length xs - AUDIO_BUFFER_SIZE) xs
          \<and> (\<forall>i < AUDIO_BUFFER_SIZE.
                m_features s' ! i =
                  m_audio_buffer s' ! ((m_audio_buffer_ptr s' + i) mod AUDIO_BUFFER_SIZE)))"
proof -
  let ?t = "fold append_sample xs s"
  have alloc: "allocated ?t"
    using assms(1) by (rule allocated_appends)
  have upd: "update_features 0 ?t = ?t\<lparr> m_features := linearized ?t \<rparr>"
    using alloc by (rule update_features_linearized)
  have last: "linearized ?t = drop (length xs - AUDIO_BUFFER_SIZE) xs"
    using assms by (rule linearized_last_samples)
  have cells: "\<forall>i < AUDIO_BUFFER_SIZE.
      linearized ?t ! i = m_audio_buffer ?t ! ((m_audio_buffer_ptr ?t + i) mod AUDIO_BUFFER_SIZE)"
    by (simp add: linearized_def)
  have len: "length (linearized ?t) = AUDIO_BUFFER_SIZE"
    by (rule length_linearized)
  show ?thesis
    unfolding Let_def upd using last cells len by simp
qed

theorem window_holds_last_samples_witness:
  "allocated (init silence silence)
   \<and> AUDIO_BUFFER_SIZE \<le> length (replicate AUDIO_BUFFER_SIZE (0::real) @ [1])
   \<and> m_features (update_features 0
         (fold append_sample (replicate AUDIO_BUFFER_SIZE 0 @ [1]) (init silence silence)))
       = replicate (AUDIO_BUFFER_SIZE - 1) 0 @ [1]"
  using window_holds_last_samples
      [of "init silence silence" "replicate AUDIO_BUFFER_SIZE (0::real) @ [1]"]
    allocated_init [of silence silence] buffer_size_pos
  by (simp add: Let_def)

text \<open>
  C3. For a score vector delivered with status \<open>EI_IMPULSE_OK\<close> the reduced label
  is the result of the scan of the specification: start at \<open>NOISE_IDX\<close>, visit every
  label, replace the running best only by a label with a strictly greater score.
  When \<open>CRYING_IDX\<close> and \<open>NOISE_IDX\<close> share the top score, the reduced label is
  \<open>NOISE_IDX\<close>.
\<close>

theorem label_reduction_strict_scan:
  fixes cls :: "('b::order) list"
  assumes "2 \<le> length cls" and "length cls \<le> 65535"
  shows "reduce_label EI_IMPULSE_OK cls = Some (Inr (spec_reduction cls))
       \<and> (cls ! CRYING_IDX = cls ! NOISE_IDX \<and> (\<forall>i < length cls. cls ! i \<le> cls ! NOISE_IDX)
            \<longrightarrow> reduce_label EI_IMPULSE_OK cls = Some (Inr NOISE_IDX))"
proof -
  have ok: "reduce_label EI_IMPULSE_OK cls = Some (Inr (spec_reduction cls))"
    using assms by (rule reduce_label_ok)
  have "spec_reduction cls = NOISE_IDX" if top: "\<forall>i < length cls. cls ! i \<le> cls ! NOISE_IDX"
  proof (rule ccontr)
    assume other: "spec_reduction cls \<noteq> NOISE_IDX"
    then have "cls ! NOISE_IDX < cls ! spec_reduction cls"
      by (rule spec_reduction_props(3))
    moreover have "spec_reduction cls < length cls"
      using other spec_reduction_props(1) [of cls] by simp
    ultimately show False using top by (auto simp: less_le_not_le)
  qed
  with ok show ?thesis by simp
qed

theorem label_reduction_strict_scan_witness:
  "2 \<le> length tied_scores \<and> length tied_scores \<le> 65535
   \<and> tied_scores ! CRYING_IDX = tied_scores ! NOISE_IDX
   \<and> tied_scores ! 0 \<le> tied_scores ! NOISE_IDX
   \<and> tied_scores ! 1 \<le> tied_scores ! NOISE_IDX
   \<and> reduce_label EI_IMPULSE_OK tied_scores = Some (Inr (spec_reduction tied_scores))
   \<and> reduce_label EI_IMPULSE_OK tied_scores = Some (Inr NOISE_IDX)"
proof -
  have len: "2 \<le> length tied_scores" "length tied_scores \<le> 65535"
    by (simp_all add: tied_scores_def)
  have tie: "tied_scores ! CRYING_IDX = tied_scores ! NOISE_IDX"
    by (simp add: tied_scores_def CRYING_IDX_def NOISE_IDX_def)
  have top: "\<forall>i < length tied_scores. tied_scores ! i \<le> tied_scores ! NOISE_IDX"
    by (simp add: tied_scores_def NOISE_IDX_def less_Suc_eq)
  have cells: "tied_scores ! 0 \<le> tied_scores ! NOISE_IDX"
      "tied_scores ! 1 \<le> tied_scores ! NOISE_IDX"
    by (simp_all add: tied_scores_def NOISE_IDX_def)
  show ?thesis
    using label_reduction_strict_scan [OF len] len tie top cells by blast
qed

text \<open>
  C4. With a status other than \<open>EI_IMPULSE_OK\<close> the scores are not looked at and the
  reduced label is \<open>NOISE_IDX\<close>; such an iteration and one with status
  \<open>EI_IMPULSE_OK\<close> whose scores reduce to \<open>NOISE_IDX\<close> hand the same label to the
  switch and leave the object in the same state.
\<close>

theorem failure_is_background:
  "(status \<noteq> EI_IMPULSE_OK \<longrightarrow> reduce_label status cls = Some (Inr NOISE_IDX))
   \<and> (status \<noteq> EI_IMPULSE_OK \<and> reduce_label EI_IMPULSE_OK cls' = Some (Inr NOISE_IDX) \<longrightarrow>
        reduce_label status cls = reduce_label EI_IMPULSE_OK cls'
        \<and> action_iteration (status, cls) s = action_iteration (EI_IMPULSE_OK, cls') s)"
  by (simp add: reduce_label_def action_iteration_def)

theorem failure_is_background_witness:
  "EI_IMPULSE_ERR (- 1) \<noteq> EI_IMPULSE_OK
   \<and> reduce_label EI_IMPULSE_OK tied_scores = Some (Inr NOISE_IDX)
   \<and> reduce_label (EI_IMPULSE_ERR (- 1)) ([] :: real list) = Some (Inr NOISE_IDX)
   \<and> action_iteration (EI_IMPULSE_ERR (- 1), [] :: real list) (init silence silence)
       = action_iteration (EI_IMPULSE_OK, tied_scores) (init silence silence)"
  using failure_is_background
      [of "EI_IMPULSE_ERR (- 1)" "[] :: real list" tied_scores "init silence silence"]
    reduce_label_tied
  by simp

text \<open>
  C5. For every finite sequence of labels run through the switch from the initial
  state, the number of calls of \<open>m_crying_fn\<close> is at most the number of changes in
  the sequence of latched states; a label seen in the state it leads to makes no call.
\<close>

theorem event_count_bounded:
  "length (m_crying_fn_calls (fold action_switch ls (init buf feat)))
     \<le> state_changes (state_sequence ls (init buf feat))
   \<and> (m_crying s \<longrightarrow> m_crying_fn_calls (action_switch CRYING_IDX s) = m_crying_fn_calls s)
   \<and> (\<not> m_crying s \<longrightarrow> m_crying_fn_calls (action_switch NOISE_IDX s) = m_crying_fn_calls s)"
  using calls_count [of ls "init buf feat"]
  by (simp add: action_switch_def init_def CRYING_IDX_def NOISE_IDX_def)

theorem event_count_bounded_witness:
  "length (m_crying_fn_calls (fold action_switch [0, 0, 1, 2, 1, 0] (init silence silence)))
     \<le> state_changes (state_sequence [0, 0, 1, 2, 1, 0] (init silence silence))
   \<and> m_crying ((init silence silence)\<lparr> m_crying := True \<rparr>)
   \<and> m_crying_fn_calls (action_switch CRYING_IDX ((init silence silence)\<lparr> m_crying := True \<rparr>))
       = m_crying_fn_calls ((init silence silence)\<lparr> m_crying := True \<rparr>)
   \<and> \<not> m_crying (init silence silence)
   \<and> m_crying_fn_calls (action_switch NOISE_IDX (init silence silence))
       = m_crying_fn_calls (init silence silence)"
  using event_count_bounded
      [of "[0, 0, 1, 2, 1, 0]" silence silence "(init silence silence)\<lparr> m_crying := True \<rparr>"]
    event_count_bounded [of "[]" silence silence "init silence silence"]
  by (simp add: init_def)

text \<open>
  C6. From the active state, a failing iteration followed by any number of failing
  iterations calls \<open>m_crying_fn\<close> exactly once, with \<open>False\<close>, in the first of them,
  and never again during the run.
\<close>

theorem failing_run_from_active:
  assumes "m_crying s" and "\<forall>r \<in> set (r0 # rs). fst r \<noteq> EI_IMPULSE_OK"
  shows "action_iteration r0 s
           = Some (Inr (s\<lparr> m_crying_fn_calls := m_crying_fn_calls s @ [False], m_crying := False \<rparr>))
       \<and> actionTask rs (s\<lparr> m_crying_fn_calls := m_crying_fn_calls s @ [False], m_crying := False \<rparr>)
           = Some (Inr (s\<lparr> m_crying_fn_calls := m_crying_fn_calls s @ [False], m_crying := False \<rparr>))
       \<and> actionTask (r0 # rs) s
           = Some (Inr (s\<lparr> m_crying_fn_calls := m_crying_fn_calls s @ [False], m_crying := False \<rparr>))"
proof -
  let ?q = "s\<lparr> m_crying_fn_calls := m_crying_fn_calls s @ [False], m_crying := False \<rparr>"
  have first: "action_iteration r0 s = Some (Inr ?q)"
    using assms
    by (simp add: action_iteration_def reduce_label_def action_switch_def
        NOISE_IDX_def CRYING_IDX_def)
  have rest: "actionTask rs ?q = Some (Inr ?q)"
    using assms(2) by (intro failing_run_quiet) simp_all
  show ?thesis
    using first rest by simp
qed

theorem failing_run_from_active_witness:
  "m_crying ((init silence silence)\<lparr> m_crying := True \<rparr>)
   \<and> fst (EI_IMPULSE_ERR (- 1), [] :: real list) \<noteq> EI_IMPULSE_OK
   \<and> fst (EI_IMPULSE_ERR (- 1), tied_scores) \<noteq> EI_IMPULSE_OK
   \<and> fst (EI_IMPULSE_ERR 5, [] :: real list) \<noteq> EI_IMPULSE_OK
   \<and> actionTask [(EI_IMPULSE_ERR (- 1), []), (EI_IMPULSE_ERR (- 1), tied_scores),
                  (EI_IMPULSE_ERR 5, [])]
        ((init silence silence)\<lparr> m_crying := True \<rparr>)
       = Some (Inr ((init silence silence)\<lparr> m_crying_fn_calls := [False], m_crying := False \<rparr>))"
  using failing_run_from_active
      [of "(init silence silence)\<lparr> m_crying := True \<rparr>" "(EI_IMPULSE_ERR (- 1), [])"
          "[(EI_IMPULSE_ERR (- 1), tied_scores), (EI_IMPULSE_ERR 5, [])]"]
  by (simp add: init_def)

text \<open>
  C7. When the score of the label being scanned equals the score of the running
  best, the running best is kept. So among the labels whose score equals that of
  the reduced label, the reduced label is \<open>NOISE_IDX\<close> if \<open>NOISE_IDX\<close> is one of
  them, and the one of lowest index otherwise.
\<close>

theorem ties_keep_running_best:
  fixes cls :: "('b::order) list"
  assumes "2 \<le> length cls" and "length cls \<le> 65535"
  shows "(unat i < length cls \<and> best < length cls \<and> cls ! unat i = cls ! best \<longrightarrow>
            label_scan cls i best = label_scan cls (i + 1) best)
       \<and> (\<exists>r < length cls. reduce_label EI_IMPULSE_OK cls = Some (Inr r)
            \<and> (cls ! NOISE_IDX = cls ! r \<longrightarrow> r = NOISE_IDX)
            \<and> (\<forall>j < length cls. cls ! j = cls ! r \<longrightarrow> r = NOISE_IDX \<or> r \<le> j))"
proof -
  let ?r = "spec_reduction cls"
  have step: "label_scan cls i best = label_scan cls (i + 1) best"
    if "unat i < length cls" "best < length cls" "cls ! unat i = cls ! best"
    using that by (subst label_scan.simps) simp
  have inside: "?r < length cls"
    using spec_reduction_props(1) [of cls] assms(1) by (auto simp: NOISE_IDX_def)
  have noise: "?r = NOISE_IDX" if "cls ! NOISE_IDX = cls ! ?r"
    using that spec_reduction_props(3) [of cls] by auto
  have lowest: "?r = NOISE_IDX \<or> ?r \<le> j" if "cls ! j = cls ! ?r" for j
    using that spec_reduction_props(4) [of cls j] by (cases "j < ?r") auto
  have "reduce_label EI_IMPULSE_OK cls = Some (Inr ?r)"
    using assms by (rule reduce_label_ok)
  with inside noise lowest have
    "\<exists>r < length cls. reduce_label EI_IMPULSE_OK cls = Some (Inr r)
            \<and> (cls ! NOISE_IDX = cls ! r \<longrightarrow> r = NOISE_IDX)
            \<and> (\<forall>j < length cls. cls ! j = cls ! r \<longrightarrow> r = NOISE_IDX \<or> r \<le> j)"
    by blast
  with step show ?thesis by blast
qed

theorem ties_keep_running_best_witness:
  "2 \<le> length tied_scores \<and> length tied_scores \<le> 65535
   \<and> label_scan tied_scores 0 NOISE_IDX = label_scan tied_scores 1 NOISE_IDX
   \<and> reduce_label EI_IMPULSE_OK tied_scores = Some (Inr NOISE_IDX)"
proof -
  have len: "2 \<le> length tied_scores" "length tied_scores \<le> 65535"
    by (simp_all add: tied_scores_def)
  have same: "tied_scores ! j = tied_scores ! NOISE_IDX" if "j < length tied_scores" for j
    using that by (auto simp: tied_scores_def NOISE_IDX_def less_Suc_eq)
  have first: "unat (0 :: 16 word) < length tied_scores \<and> NOISE_IDX < length tied_scores
      \<and> tied_scores ! unat (0 :: 16 word) = tied_scores ! NOISE_IDX"
    by (simp add: tied_scores_def NOISE_IDX_def)
  from ties_keep_running_best [OF len, of 0 NOISE_IDX] first
  have "label_scan tied_scores 0 NOISE_IDX = label_scan tied_scores 1 NOISE_IDX"
    by simp
  moreover from ties_keep_running_best [OF len, of 0 NOISE_IDX]
  obtain r where "r < length tied_scores"
      "reduce_label EI_IMPULSE_OK tied_scores = Some (Inr r)"
      "tied_scores ! NOISE_IDX = tied_scores ! r \<longrightarrow> r = NOISE_IDX"
    by blast
  then have "reduce_label EI_IMPULSE_OK tied_scores = Some (Inr NOISE_IDX)"
    using same [of r] by simp
  ultimately show ?thesis using len by simp
qed

text \<open>
  A tie can go to the label of higher index: the two labels of \<open>tied_scores\<close> have
  the same score, and the reduced label is \<open>NOISE_IDX\<close>, the higher of the two
  indices.
\<close>

theorem tie_resolved_to_higher_index:
  "reduce_label EI_IMPULSE_OK tied_scores = Some (Inr NOISE_IDX)
   \<and> tied_scores ! CRYING_IDX = tied_scores ! NOISE_IDX
   \<and> CRYING_IDX < NOISE_IDX"
  using reduce_label_tied by (simp add: tied_scores_def CRYING_IDX_def NOISE_IDX_def)

text \<open>
  C8. In every state reached from the initial one by single-sample appends the
  cursor is at most \<open>AUDIO_BUFFER_SIZE\<close>. An append stores the sample in cell
  \<open>m_audio_buffer_ptr mod AUDIO_BUFFER_SIZE\<close> and leaves the cursor one past that
  cell, so the cursor advances by one modulo \<open>AUDIO_BUFFER_SIZE\<close>. Once
  \<open>AUDIO_BUFFER_SIZE\<close> samples have been appended, the cell the next append
  overwrites holds the oldest of the last \<open>AUDIO_BUFFER_SIZE\<close> samples.
\<close>

theorem cursor_range_and_advance:
  "m_audio_buffer_ptr (fold append_sample xs (init buf feat)) \<le> AUDIO_BUFFER_SIZE
   \<and> m_audio_buffer_ptr (append_sample x s) = m_audio_buffer_ptr s mod AUDIO_BUFFER_SIZE + 1
   \<and> m_audio_buffer_ptr (append_sample x s) mod AUDIO_BUFFER_SIZE
       = (m_audio_buffer_ptr s + 1) mod AUDIO_BUFFER_SIZE
   \<and> m_audio_buffer (append_sample x s)
       = (m_audio_buffer s)[m_audio_buffer_ptr s mod AUDIO_BUFFER_SIZE := x]
   \<and> (allocated s \<and> AUDIO_BUFFER_SIZE \<le> length ys \<longrightarrow>
        m_audio_buffer (fold append_sample ys s)
            ! (m_audio_buffer_ptr (fold append_sample ys s) mod AUDIO_BUFFER_SIZE)
          = ys ! (length ys - AUDIO_BUFFER_SIZE))"
proof -
  have "m_audio_buffer_ptr (init buf feat) \<le> AUDIO_BUFFER_SIZE"
    by (simp add: init_def)
  then have "m_audio_buffer_ptr (fold append_sample xs (init buf feat)) \<le> AUDIO_BUFFER_SIZE"
    by (rule ptr_bound_appends)
  moreover have "m_audio_buffer_ptr (append_sample x s) mod AUDIO_BUFFER_SIZE
       = (m_audio_buffer_ptr s + 1) mod AUDIO_BUFFER_SIZE"
    by (simp add: append_sample_def Let_def mod_Suc_eq)
  ultimately show ?thesis
    using oldest_at_cursor [of s ys] by (simp add: append_sample_def Let_def)
qed

theorem cursor_range_and_advance_witness:
  "allocated (init silence silence)
   \<and> AUDIO_BUFFER_SIZE \<le> length (7 # replicate (AUDIO_BUFFER_SIZE - 1) (0::real))
   \<and> m_audio_buffer (fold append_sample (7 # replicate (AUDIO_BUFFER_SIZE - 1) 0)
          (init silence silence))
        ! (m_audio_buffer_ptr (fold append_sample (7 # replicate (AUDIO_BUFFER_SIZE - 1) 0)
             (init silence silence)) mod AUDIO_BUFFER_SIZE)
       = 7"
  using cursor_range_and_advance
      [where s = "init silence silence" and x = 0 and xs = "[]"
         and buf = silence and feat = silence
         and ys = "7 # replicate (AUDIO_BUFFER_SIZE - 1) (0::real)"]
    allocated_init [of silence silence] buffer_size_pos
  by simp

text \<open>
  The cursor is not always below \<open>AUDIO_BUFFER_SIZE\<close>, and an append from cursor
  \<open>w\<close> does not always leave it at \<open>(w + 1) mod AUDIO_BUFFER_SIZE\<close>: after 16000
  appends the cursor is 16000, not 0.
\<close>

theorem cursor_reaches_buffer_size:
  "\<not> m_audio_buffer_ptr (fold append_sample (replicate 16000 0) (init silence silence))
       < AUDIO_BUFFER_SIZE
   \<and> m_audio_buffer_ptr (fold append_sample (replicate 16000 0) (init silence silence))
       \<noteq> (m_audio_buffer_ptr (fold append_sample (replicate 15999 0) (init silence silence)) + 1)
           mod AUDIO_BUFFER_SIZE"
  using ptr_after_appends [of "replicate 16000 (0::real)" "init silence silence"]
    ptr_after_appends [of "replicate 15999 (0::real)" "init silence silence"]
  by (simp add: AUDIO_BUFFER_SIZE_def init_def)

text \<open>
  C9. An iteration of the detect task whose fetch returned a null pointer or a
  result with \<open>ret_value = ESP_FAIL\<close> leaves the object as it was (no sample stored,
  cursor and \<open>m_features\<close> untouched), and the task goes on with the next fetch.
\<close>

theorem fetch_failure_leaves_state:
  assumes "res = None \<or> (\<exists>r. res = Some r \<and> ret_value r = ESP_FAIL)"
  shows "detect_iteration afe_chunksize res s = Inr s
       \<and> detectTask afe_chunksize (res # fetches) s = detectTask afe_chunksize fetches s"
  using assms by (auto simp: detect_iteration_def)

theorem fetch_failure_leaves_state_witness:
  "detect_iteration 2 None (init silence silence) = Inr (init silence silence)
   \<and> ret_value \<lparr> data = [1, 2 :: real], ret_value = ESP_FAIL \<rparr> = ESP_FAIL
   \<and> detect_iteration 2 (Some \<lparr> data = [1, 2], ret_value = ESP_FAIL \<rparr>) (init silence silence)
       = Inr (init silence silence)
   \<and> detectTask 2 [None, Some \<lparr> data = [1, 2], ret_value = ESP_FAIL \<rparr>] (init silence silence)
       = Inr (init silence silence)"
  using fetch_failure_leaves_state [of "None" 2 "init silence silence"
      "[Some \<lparr> data = [1, 2 :: real], ret_value = ESP_FAIL \<rparr>]"]
    fetch_failure_leaves_state [of "Some \<lparr> data = [1, 2 :: real], ret_value = ESP_FAIL \<rparr>"
      2 "init silence silence" "[]"]
  by simp

text \<open>
  C10. \<open>get_data_fn\<close> checks nothing. On a platform whose \<open>size_t\<close> holds the byte
  size of the window, a request with \<open>offset + length \<le> AUDIO_BUFFER_SIZE\<close>
  delivers exactly the cells \<open>offset, \<dots>, offset + length - 1\<close> of \<open>m_features\<close>, so
  no cell outside the array is read; 0 is returned for every request; and for a
  request of at least one float whose byte count \<open>length * sizeof(float)\<close> fits
  \<open>size_t\<close>, a cell outside the array is read exactly when
  \<open>offset + length > AUDIO_BUFFER_SIZE\<close>.
\<close>

theorem get_data_fn_unchecked:
  fixes offset len :: "'w::len word"
  assumes "allocated obj" and "4 * AUDIO_BUFFER_SIZE < 2 ^ LENGTH('w)"
  shows "(unat offset + unat len \<le> AUDIO_BUFFER_SIZE \<longrightarrow>
            get_data_fn obj offset len
              = (Inr (take (unat len) (drop (unat offset) (m_features obj))), 0)
          \<and> length (take (unat len) (drop (unat offset) (m_features obj))) = unat len
          \<and> (\<forall>i < unat len. take (unat len) (drop (unat offset) (m_features obj)) ! i
                = m_features obj ! (unat offset + i)))
       \<and> snd (get_data_fn obj offset len) = 0
       \<and> (0 < unat len \<and> 4 * unat len < 2 ^ LENGTH('w) \<longrightarrow>
            (fst (get_data_fn obj offset len) = Inl OutOfRange
               \<longleftrightarrow> AUDIO_BUFFER_SIZE < unat offset + unat len))"
proof -
  have size: "length (m_features obj) = AUDIO_BUFFER_SIZE"
    using assms(1) by (simp add: allocated_def)
  have inside: "get_data_fn obj offset len
        = (Inr (take (unat len) (drop (unat offset) (m_features obj))), 0)"
    if le: "unat offset + unat len \<le> AUDIO_BUFFER_SIZE"
  proof (cases "unat len = 0")
    case True
    then have "len = 0" by (simp add: unat_eq_0)
    then show ?thesis by (simp add: get_data_fn_def)
  next
    case False
    then have pos: "0 < unat len" by simp
    have "4 * unat len \<le> 4 * AUDIO_BUFFER_SIZE" using le by simp
    with assms(2) have "4 * unat len < 2 ^ LENGTH('w)" by simp
    with pos have "unat (len * 4) div 4 = unat len" by (rule copied_floats)
    with pos le show ?thesis by (simp add: get_data_fn_def Let_def size)
  qed
  have returned: "snd (get_data_fn obj offset len) = 0"
    by (simp add: get_data_fn_def Let_def)
  have outside: "fst (get_data_fn obj offset len) = Inl OutOfRange
               \<longleftrightarrow> AUDIO_BUFFER_SIZE < unat offset + unat len"
    if "0 < unat len" "4 * unat len < 2 ^ LENGTH('w)"
  proof -
    have "unat (len * 4) div 4 = unat len" using that by (rule copied_floats)
    with that(1) show ?thesis by (auto simp: get_data_fn_def Let_def size)
  qed
  show ?thesis
    using inside returned outside size by auto
qed

theorem get_data_fn_unchecked_witness:
  "allocated (init silence silence)
   \<and> 4 * AUDIO_BUFFER_SIZE < 2 ^ LENGTH(32)
   \<and> unat (100 :: 32 word) + unat (50 :: 32 word) \<le> AUDIO_BUFFER_SIZE
   \<and> get_data_fn (init silence silence) (100 :: 32 word) 50
       = (Inr (take 50 (drop 100 (m_features (init silence silence)))), 0)
   \<and> AUDIO_BUFFER_SIZE < unat (15990 :: 32 word) + unat (20 :: 32 word)
   \<and> get_data_fn (init silence silence) (15990 :: 32 word) 20 = (Inl OutOfRange, 0)"
  using get_data_fn_unchecked [of "init silence silence" "100 :: 32 word" 50]
    get_data_fn_unchecked [of "init silence silence" "15990 :: 32 word" 20]
    allocated_init [of silence silence]
  by (simp add: AUDIO_BUFFER_SIZE_def prod_eq_iff)

text \<open>
  A request that goes beyond the window need not read outside the array: with a
  32-bit \<open>size_t\<close> the byte count of \<open>2 ^ 30\<close> floats wraps to 0, so nothing is
  read and 0 is returned.
\<close>

theorem wrapped_byte_count_reads_nothing:
  "AUDIO_BUFFER_SIZE < unat (0 :: 32 word) + unat (1073741824 :: 32 word)
   \<and> get_data_fn (init silence silence) (0 :: 32 word) 1073741824 = (Inr [], 0)"
  by (simp add: get_data_fn_def Let_def AUDIO_BUFFER_SIZE_def)

end
